theory Spec2Isabelle
  imports Main "HOL-Library.Sublist"
begin

section \<open>Strings as the scraper uses them\<close>

text \<open>
  Python strings are modelled as \<open>string\<close> (lists of 8-bit characters); the model covers
  ASCII text. \<open>str.lower\<close> maps \<open>A\<close>..\<open>Z\<close> to \<open>a\<close>..\<open>z\<close> and leaves every other
  character alone, \<open>str.strip\<close> removes leading and trailing ASCII whitespace (the
  characters for which \<open>str.isspace\<close> holds: codes 9 to 13, 28 to 31 and 32), and
  \<open>sub in text\<close> is the contiguous-sublist test \<open>sublist sub text\<close>.
\<close>

definition is_upper :: "char \<Rightarrow> bool" where
  "is_upper c = (c \<in> set ''ABCDEFGHIJKLMNOPQRSTUVWXYZ'')"

definition is_lower :: "char \<Rightarrow> bool" where
  "is_lower c = (c \<in> set ''abcdefghijklmnopqrstuvwxyz'')"

definition is_digit :: "char \<Rightarrow> bool" where
  "is_digit c = (c \<in> set ''0123456789'')"

definition whitespace :: string where
  "whitespace = [CHR 0x09, CHR 0x0A, CHR 0x0B, CHR 0x0C, CHR 0x0D,
                 CHR 0x1C, CHR 0x1D, CHR 0x1E, CHR 0x1F, CHR 0x20]"

definition is_space :: "char \<Rightarrow> bool" where
  "is_space c = (c \<in> set whitespace)"

definition lower_char :: "char \<Rightarrow> char" where
  "lower_char c =
     (case map_of (zip ''ABCDEFGHIJKLMNOPQRSTUVWXYZ'' ''abcdefghijklmnopqrstuvwxyz'') c of
        None \<Rightarrow> c | Some l \<Rightarrow> l)"

definition lower :: "string \<Rightarrow> string" where
  "lower s = map lower_char s"

definition strip :: "string \<Rightarrow> string" where
  "strip s = rev (dropWhile is_space (rev (dropWhile is_space s)))"

text \<open>
  \<open>str.split()\<close> without arguments cuts at runs of whitespace and returns the non-empty
  words; \<open>str.split(sep)\<close> with a one-character separator cuts at every occurrence and
  keeps empty pieces; \<open>str.isdigit\<close> asks for a non-empty string of digits.
\<close>

fun split_ws_aux :: "string \<Rightarrow> string \<Rightarrow> string list" where
  "split_ws_aux cur [] = (if cur = [] then [] else [cur])"
| "split_ws_aux cur (c # cs) =
     (if is_space c
      then (if cur = [] then split_ws_aux [] cs else cur # split_ws_aux [] cs)
      else split_ws_aux (cur @ [c]) cs)"

definition split_ws :: "string \<Rightarrow> string list" where
  "split_ws s = split_ws_aux [] s"

fun split_on_aux :: "char \<Rightarrow> string \<Rightarrow> string \<Rightarrow> string list" where
  "split_on_aux sep cur [] = [cur]"
| "split_on_aux sep cur (c # cs) =
     (if c = sep then cur # split_on_aux sep [] cs else split_on_aux sep (cur @ [c]) cs)"

definition split_on :: "char \<Rightarrow> string \<Rightarrow> string list" where
  "split_on sep s = split_on_aux sep [] s"

definition isdigit :: "string \<Rightarrow> bool" where
  "isdigit s = (s \<noteq> [] \<and> list_all is_digit s)"

section \<open>Organization records\<close>

text \<open>
  The dictionaries built by \<open>_extract_organization_details\<close>,
  \<open>_extract_detailed_organization_info\<close> and \<open>_extract_from_general_content\<close> always carry
  the same thirteen string-valued keys, so a record of thirteen strings stands for them; the
  empty string is the "absent" value, as in the source.
\<close>

record org =
  Category :: string
  Organization_Name :: string
  Organization_Link :: string
  Logo_Link :: string
  Description :: string
  Email :: string
  Phone_Number :: string
  Linkedin_Link :: string
  Instagram_Link :: string
  Facebook_Link :: string
  Twitter_Link :: string
  Youtube_Link :: string
  Tiktok_Link :: string

text \<open>The template dictionary \<open>org_data\<close> every builder starts from: all fields empty.\<close>

definition org_data :: org where
  "org_data = \<lparr>Category = [], Organization_Name = [], Organization_Link = [], Logo_Link = [],
     Description = [], Email = [], Phone_Number = [], Linkedin_Link = [], Instagram_Link = [],
     Facebook_Link = [], Twitter_Link = [], Youtube_Link = [], Tiktok_Link = []\<rparr>"

section \<open>Duplicate removal\<close>

text \<open>
  \<^verbatim>\<open>
  seen_names = set()
  unique_organizations = []
  for org in organizations:
      name = org.get('Organization Name', '').strip().lower()
      if name and name not in seen_names:
          seen_names.add(name)
          unique_organizations.append(org)
  \<close>
  The loop of \<open>extract_organizations_from_page\<close> (and, word for word, of
  \<open>save_enhanced_data\<close>) threads the pair \<open>(seen_names, unique_organizations)\<close>; the
  page extractor later resumes it on the raw-text records with the same pair.
\<close>

definition name_key :: "org \<Rightarrow> string" where
  "name_key org = lower (strip (Organization_Name org))"

fun dedup_loop :: "string set \<Rightarrow> org list \<Rightarrow> org list \<Rightarrow> string set \<times> org list" where
  "dedup_loop seen_names unique [] = (seen_names, unique)"
| "dedup_loop seen_names unique (org # orgs) =
     (let name = name_key org in
      if name \<noteq> [] \<and> name \<notin> seen_names
      then dedup_loop (insert name seen_names) (unique @ [org]) orgs
      else dedup_loop seen_names unique orgs)"

definition remove_duplicates :: "org list \<Rightarrow> org list" where
  "remove_duplicates orgs = snd (dedup_loop {} [] orgs)"

section \<open>The entity-name predicate\<close>

text \<open>
  \<open>_is_likely_organization_name\<close> of the comprehensive scraper, and its variant in the
  scraper for universities 91 to 100 (shorter lists, no \<open>strip\<close>, no digit test, word
  count up to 8, length up to 200).
\<close>

definition skip_terms :: "string list" where
  "skip_terms =
    [''home'', ''about'', ''contact'', ''login'', ''search'', ''menu'', ''navigation'', ''footer'',
     ''header'', ''sidebar'', ''main'', ''content'', ''page'', ''site'', ''copyright'', ''privacy'',
     ''terms'', ''policy'', ''back to top'', ''skip to'', ''click here'', ''read more'',
     ''learn more'', ''see more'', ''view all'', ''show all'', ''campus'', ''university'',
     ''college'', ''school'', ''education'', ''academic'', ''student services'']"

definition org_indicators :: "string list" where
  "org_indicators =
    [''club'', ''society'', ''association'', ''organization'', ''group'', ''team'', ''council'',
     ''committee'', ''union'', ''fraternity'', ''sorority'', ''honor'', ''student'', ''academic'',
     ''professional'', ''service'', ''volunteer'', ''honor society'', ''student government'']"

definition is_likely_organization_name :: "string \<Rightarrow> bool" where
  "is_likely_organization_name text =
     (if text = [] \<or> length text < 3 \<or> length text > 300 then False
      else let text_lower = strip (lower text) in
        if list_ex (\<lambda>term. sublist term text_lower) skip_terms then False
        else if isdigit text \<or> length (split_ws text) < 1 then False
        else list_ex (\<lambda>indicator. sublist indicator text_lower) org_indicators \<or>
             (length (split_ws text) \<ge> 2 \<and> length (split_ws text) \<le> 12))"

definition skip_terms_91_100 :: "string list" where
  "skip_terms_91_100 =
    [''home'', ''about'', ''contact'', ''login'', ''search'', ''menu'', ''navigation'',
     ''footer'', ''header'', ''sidebar'', ''main'', ''content'', ''page'', ''site'',
     ''copyright'', ''privacy'', ''terms'', ''policy'', ''back to top'', ''skip to'',
     ''student life'', ''campus'', ''university'', ''college'', ''school'']"

definition org_indicators_91_100 :: "string list" where
  "org_indicators_91_100 =
    [''club'', ''society'', ''association'', ''organization'', ''group'', ''team'',
     ''council'', ''committee'', ''union'', ''fraternity'', ''sorority'', ''honor'',
     ''student'', ''academic'', ''professional'', ''service'', ''volunteer'']"

definition is_likely_organization_name_91_100 :: "string \<Rightarrow> bool" where
  "is_likely_organization_name_91_100 text =
     (if text = [] \<or> length text < 3 \<or> length text > 200 then False
      else let text_lower = lower text in
        if list_ex (\<lambda>term. sublist term text_lower) skip_terms_91_100 then False
        else list_ex (\<lambda>indicator. sublist indicator text_lower) org_indicators_91_100 \<or>
             (length (split_ws text) \<ge> 2 \<and> length (split_ws text) \<le> 8))"

section \<open>The category classifier\<close>

text \<open>
  \<open>_determine_category\<close>: the dictionary \<open>category_keywords\<close> is iterated in insertion
  order, so it is an association list; the \<open>for\<close> loop over it is \<open>first_category\<close>.
\<close>

definition category_keywords :: "(string \<times> string list) list" where
  "category_keywords =
    [(''Academic'', [''academic'', ''honor society'', ''honor'', ''scholarship'', ''study'',
        ''research'', ''education'', ''phi theta kappa'', ''national honor'', ''dean's list'']),
     (''Arts'', [''art'', ''music'', ''theater'', ''theatre'', ''dance'', ''creative'', ''band'',
        ''choir'', ''drama'', ''visual'', ''performing'']),
     (''Athletics'', [''sport'', ''athletic'', ''team'', ''recreation'', ''fitness'',
        ''basketball'', ''football'', ''soccer'', ''baseball'', ''volleyball'']),
     (''Cultural'', [''cultural'', ''international'', ''heritage'', ''ethnic'', ''diversity'',
        ''multicultural'', ''african american'', ''hispanic'', ''asian'']),
     (''Greek Life'', [''fraternity'', ''sorority'', ''greek'', ''alpha'', ''beta'', ''gamma'',
        ''delta'', ''theta'', ''phi'', ''sigma'']),
     (''Professional'', [''professional'', ''career'', ''business'', ''engineering'', ''medical'',
        ''law'', ''nursing'', ''education'', ''technology'']),
     (''Religious'', [''christian'', ''muslim'', ''jewish'', ''faith'', ''religious'',
        ''ministry'', ''chapel'', ''church'', ''bible'', ''spiritual'']),
     (''Service'', [''service'', ''volunteer'', ''community'', ''outreach'', ''charity'', ''help'',
        ''support'', ''humanitarian'', ''social service'']),
     (''Student Government'', [''student government'', ''sga'', ''student association'',
        ''student council'', ''government'', ''leadership'']),
     (''Special Interest'', [''gaming'', ''anime'', ''technology'', ''computer'', ''environment'',
        ''outdoor'', ''photography'', ''cooking'', ''debate''])]"

fun first_category :: "string \<Rightarrow> (string \<times> string list) list \<Rightarrow> string" where
  "first_category text [] = ''General''"
| "first_category text ((category, keywords) # rest) =
     (if list_ex (\<lambda>keyword. sublist keyword text) keywords then category
      else first_category text rest)"

definition determine_category :: "string \<Rightarrow> string \<Rightarrow> string" where
  "determine_category name description =
     first_category (lower (name @ '' '' @ description)) category_keywords"

section \<open>The strategy cascade of the page extractor\<close>

text \<open>
  A parsed page is a BeautifulSoup tree, which is outside this development. What
  \<open>extract_organizations_from_page\<close> needs of it are the record lists the four
  document-query strategies return when they are called on it, and the text
  \<open>soup.get_text()\<close> that the raw-text fallback scans; the record \<open>page\<close> holds
  exactly these. Calling a strategy is an effect (the linked-page strategy fetches
  pages), so the extractor also returns the list of strategies it called, in call order.
\<close>

datatype strategy = Structured | ListBased | HeadingBased | Linked | GeneralContent

record page =
  structured_organizations :: "org list"
  list_based_organizations :: "org list"
  heading_based_organizations :: "org list"
  linked_organizations :: "org list"
  text_content :: string

text \<open>
  \<^verbatim>\<open>
  lines = [line.strip() for line in text_content.split('\n') if line.strip()]
  for line in lines:
      if self._is_likely_organization_name(line) and len(line) < 150:
          organizations.append({... 'Category': self._determine_category(line, ""),
                                'Organization Name': line, 'Organization Link': base_url ...})
  return organizations[:50]
  \<close>
\<close>

definition extract_from_general_content :: "page \<Rightarrow> string \<Rightarrow> org list" where
  "extract_from_general_content soup base_url =
     (let lines = filter (\<lambda>line. line \<noteq> [])
                    (map strip (split_on (CHR 0x0A) (text_content soup)));
          organizations =
            map (\<lambda>line. org_data\<lparr>Category := determine_category line [],
                                   Organization_Name := line,
                                   Organization_Link := base_url\<rparr>)
              (filter (\<lambda>line. is_likely_organization_name line \<and> length line < 150) lines)
      in take 50 organizations)"

text \<open>
  The gates compare \<open>len(organizations)\<close> with \<open>expected_count * 0.5\<close> and
  \<open>expected_count * 0.3\<close>. Python evaluates the products in binary floating point and
  compares the integer with the float exactly; \<open>0.5\<close> is a power of two, and the double
  nearest to \<open>0.3\<close> times an integer rounds to the integer \<open>3k\<close> when the count is
  \<open>10k\<close> and stays strictly between two integers otherwise, so for the counts of the
  scraper the comparisons are the integer inequalities \<open>2 * n < e\<close> and
  \<open>10 * n < 3 * e\<close> written here.
\<close>

definition below_half :: "nat \<Rightarrow> int \<Rightarrow> bool" where
  "below_half n expected_count = (2 * int n < expected_count)"

definition below_30_percent :: "nat \<Rightarrow> int \<Rightarrow> bool" where
  "below_30_percent n expected_count = (10 * int n < 3 * expected_count)"

definition extract_organizations_from_page ::
    "page \<Rightarrow> string \<Rightarrow> int \<Rightarrow> strategy list \<times> org list" where
  "extract_organizations_from_page soup base_url expected_count =
     (let calls1 = [Structured];
          organizations1 = structured_organizations soup;
          (calls2, organizations2) =
            (if below_half (length organizations1) expected_count
             then (calls1 @ [ListBased], organizations1 @ list_based_organizations soup)
             else (calls1, organizations1));
          (calls3, organizations3) =
            (if below_half (length organizations2) expected_count
             then (calls2 @ [HeadingBased], organizations2 @ heading_based_organizations soup)
             else (calls2, organizations2));
          (calls4, organizations4) =
            (if below_30_percent (length organizations3) expected_count
             then (calls3 @ [Linked], organizations3 @ linked_organizations soup)
             else (calls3, organizations3));
          (seen_names, unique_organizations) = dedup_loop {} [] organizations4
      in if below_30_percent (length unique_organizations) expected_count
         then (calls4 @ [GeneralContent],
               snd (dedup_loop seen_names unique_organizations
                      (extract_from_general_content soup base_url)))
         else (calls4, unique_organizations))"

section \<open>Regular expressions of the contact extractors\<close>

text \<open>
  The patterns the extractors hand to \<open>re.findall\<close> and \<open>re.match\<close> are sequences of
  quantified character classes, word boundaries \<open>\b\<close> and a final \<open>$\<close>; there are no
  groups and no alternatives. Such a pattern is a list of items: \<open>Rep cls lo hi\<close> is the
  class \<open>cls\<close> (the list of its characters) repeated greedily between \<open>lo\<close> and \<open>hi\<close>
  times (\<open>None\<close>: no upper bound). \<open>match_here\<close> is the backtracking matcher at one
  position: for a repetition it takes the longest run first and gives characters back one
  at a time until the rest of the pattern matches; it returns the length matched.
  \<open>prev\<close> is the character before the position, which \<open>\b\<close> needs. Under
  \<open>re.IGNORECASE\<close> a character belongs to a class when it or its other-case form does.
  \<open>findall\<close> scans from the left, collects the non-overlapping matches and resumes after
  each match (\<open>skip\<close> counts the characters of the match still to pass). Every pattern of
  the scraper consumes at least one character.
\<close>

datatype item = Rep string nat "nat option" | WordBoundary | EndAnchor

definition upper_char :: "char \<Rightarrow> char" where
  "upper_char c =
     (case map_of (zip ''abcdefghijklmnopqrstuvwxyz'' ''ABCDEFGHIJKLMNOPQRSTUVWXYZ'') c of
        None \<Rightarrow> c | Some u \<Rightarrow> u)"

definition class_match :: "bool \<Rightarrow> string \<Rightarrow> char \<Rightarrow> bool" where
  "class_match ignorecase cls c =
     (c \<in> set cls \<or> (ignorecase \<and> (lower_char c \<in> set cls \<or> upper_char c \<in> set cls)))"

definition is_word_char :: "char \<Rightarrow> bool" where
  "is_word_char c = (is_upper c \<or> is_lower c \<or> is_digit c \<or> c = CHR ''_'')"

definition at_word_boundary :: "char option \<Rightarrow> string \<Rightarrow> bool" where
  "at_word_boundary prev s =
     ((case prev of None \<Rightarrow> False | Some p \<Rightarrow> is_word_char p) \<noteq>
      (case s of [] \<Rightarrow> False | c # cs \<Rightarrow> is_word_char c))"

fun first_some :: "(nat \<Rightarrow> nat option) \<Rightarrow> nat list \<Rightarrow> nat option" where
  "first_some f [] = None"
| "first_some f (k # ks) = (case f k of None \<Rightarrow> first_some f ks | Some n \<Rightarrow> Some n)"

primrec match_here :: "item list \<Rightarrow> bool \<Rightarrow> char option \<Rightarrow> string \<Rightarrow> nat option" where
  "match_here [] ignorecase prev s = Some 0"
| "match_here (it # its) ignorecase prev s =
     (case it of
        WordBoundary \<Rightarrow>
          if at_word_boundary prev s then match_here its ignorecase prev s else None
      | EndAnchor \<Rightarrow>
          if s = [] \<or> s = [CHR 0x0A] then match_here its ignorecase prev s else None
      | Rep cls lo hi \<Rightarrow>
          (let avail = length (takeWhile (class_match ignorecase cls) s);
               kmax = (case hi of None \<Rightarrow> avail | Some h \<Rightarrow> min h avail)
           in first_some
                (\<lambda>k. map_option (\<lambda>n. k + n)
                       (match_here its ignorecase
                          (if k = 0 then prev else Some (s ! (k - 1))) (drop k s)))
                (rev [lo..<Suc kmax])))"

fun findall_from :: "item list \<Rightarrow> bool \<Rightarrow> char option \<Rightarrow> nat \<Rightarrow> string \<Rightarrow> string list" where
  "findall_from its ignorecase prev skip [] =
     (if skip = 0 \<and> match_here its ignorecase prev [] \<noteq> None then [[]] else [])"
| "findall_from its ignorecase prev skip (c # cs) =
     (if skip > 0 then findall_from its ignorecase (Some c) (skip - 1) cs
      else (case match_here its ignorecase prev (c # cs) of
              None \<Rightarrow> findall_from its ignorecase (Some c) 0 cs
            | Some n \<Rightarrow> take n (c # cs) # findall_from its ignorecase (Some c) (n - 1) cs))"

definition findall :: "item list \<Rightarrow> bool \<Rightarrow> string \<Rightarrow> string list" where
  "findall pattern ignorecase s = findall_from pattern ignorecase None 0 s"

definition lit :: "string \<Rightarrow> item list" where
  "lit s = map (\<lambda>c. Rep [c] 1 (Some 1)) s"

text \<open>\<open>str.replace(old, new)\<close> for a non-empty \<open>old\<close>: left to right, non-overlapping.\<close>

fun replace_from :: "string \<Rightarrow> string \<Rightarrow> nat \<Rightarrow> string \<Rightarrow> string" where
  "replace_from old new skip [] = []"
| "replace_from old new skip (c # cs) =
     (if skip > 0 then replace_from old new (skip - 1) cs
      else if prefix old (c # cs) then new @ replace_from old new (length old - 1) cs
      else c # replace_from old new 0 cs)"

definition replace :: "string \<Rightarrow> string \<Rightarrow> string \<Rightarrow> string" where
  "replace old new s = replace_from old new 0 s"

text \<open>The character classes of the patterns.\<close>

definition letters :: string where
  "letters = ''ABCDEFGHIJKLMNOPQRSTUVWXYZabcdefghijklmnopqrstuvwxyz''"

definition digit_chars :: string where
  "digit_chars = ''0123456789''"

definition local_chars :: string where
  "local_chars = letters @ digit_chars @ ''._%+-''"

definition domain_chars :: string where
  "domain_chars = letters @ digit_chars @ ''.-''"

definition tld_chars :: string where
  "tld_chars = ''ABCDEFGHIJKLMNOPQRSTUVWXYZ|abcdefghijklmnopqrstuvwxyz''"

definition separator_chars :: string where
  "separator_chars = ''-.'' @ whitespace"

section \<open>Email extraction\<close>

text \<open>
  \<^verbatim>\<open>
  email_patterns = [
      r'\b[A-Za-z0-9._%+-]+@[A-Za-z0-9.-]+\.[A-Z|a-z]{2,}\b',
      r'\b[A-Za-z0-9._%+-]+\s*\[at\]\s*[A-Za-z0-9.-]+\s*\[dot\]\s*[A-Za-z]{2,}\b',
      r'\b[A-Za-z0-9._%+-]+\s*@\s*[A-Za-z0-9.-]+\s*\.\s*[A-Za-z]{2,}\b',
  ]
  \<close>
  The same three patterns stand in \<open>_extract_email_from_text\<close> of the comprehensive
  scraper and in \<open>extract_enhanced_email\<close> of the enhanced scraper, both searched with
  \<open>re.IGNORECASE\<close>.
\<close>

definition email_patterns :: "item list list" where
  "email_patterns =
    [[WordBoundary, Rep local_chars 1 None] @ lit ''@'' @
       [Rep domain_chars 1 None] @ lit ''.'' @ [Rep tld_chars 2 None, WordBoundary],
     [WordBoundary, Rep local_chars 1 None, Rep whitespace 0 None] @ lit ''[at]'' @
       [Rep whitespace 0 None, Rep domain_chars 1 None, Rep whitespace 0 None] @ lit ''[dot]'' @
       [Rep whitespace 0 None, Rep letters 2 None, WordBoundary],
     [WordBoundary, Rep local_chars 1 None, Rep whitespace 0 None] @ lit ''@'' @
       [Rep whitespace 0 None, Rep domain_chars 1 None, Rep whitespace 0 None] @ lit ''.'' @
       [Rep whitespace 0 None, Rep letters 2 None, WordBoundary]]"

definition all_emails :: "string \<Rightarrow> string list" where
  "all_emails s = concat (map (\<lambda>pattern. findall pattern True s) email_patterns)"

definition clean_email :: "string \<Rightarrow> string" where
  "clean_email email = replace '' '' [] (replace ''[dot]'' ''.'' (replace ''[at]'' ''@'' email))"

definition cleaned_emails :: "string \<Rightarrow> string list" where
  "cleaned_emails s = map clean_email (all_emails s)"

definition skip_patterns :: "string list" where
  "skip_patterns =
     [''noreply'', ''webmaster'', ''admin@university'', ''support@university'', ''info@example'']"

definition org_terms :: "string list" where
  "org_terms = [''student'', ''club'', ''org'', ''group'', ''society'']"

definition skipped :: "string \<Rightarrow> bool" where
  "skipped email = list_ex (\<lambda>skip. sublist skip (lower email)) skip_patterns"

definition org_specific :: "string \<Rightarrow> bool" where
  "org_specific email = list_ex (\<lambda>term. sublist term (lower email)) org_terms"

text \<open>
  \<^verbatim>\<open>
  for email in cleaned_emails:
      if not any(skip in email.lower() for skip in skip_patterns):
          if any(term in email.lower() for term in ['student', 'club', 'org', 'group', 'society']):
              filtered_emails.insert(0, email)
          else:
              filtered_emails.append(email)
  return filtered_emails[0] if filtered_emails else ""
  \<close>
\<close>

fun prioritize :: "string list \<Rightarrow> string list \<Rightarrow> string list" where
  "prioritize filtered_emails [] = filtered_emails"
| "prioritize filtered_emails (email # rest) =
     (if \<not> skipped email
      then (if org_specific email then prioritize (email # filtered_emails) rest
            else prioritize (filtered_emails @ [email]) rest)
      else prioritize filtered_emails rest)"

definition extract_email_from_text :: "string \<Rightarrow> string" where
  "extract_email_from_text s =
     (case prioritize [] (cleaned_emails s) of [] \<Rightarrow> [] | email # rest \<Rightarrow> email)"

text \<open>
  A parsed element (a container or a whole page): of a BeautifulSoup tree the extractors
  read the text \<open>get_text()\<close> and the \<open>href\<close> attributes of its anchors, in document
  order. \<open>get_text()\<close> joins the text nodes only, so an \<open>href\<close> value is not part of it.
\<close>

record element =
  get_text :: string
  anchor_hrefs :: "string list"

definition extract_email :: "element \<Rightarrow> string" where
  "extract_email container = extract_email_from_text (get_text container)"

text \<open>
  \<open>is_valid_email\<close> is \<open>re.match\<close> with
  \<^verbatim>\<open>^[A-Za-z0-9._%+-]+@[A-Za-z0-9.-]+\.[A-Z|a-z]{2,}$\<close> (no flags).
\<close>

definition is_valid_email :: "string \<Rightarrow> bool" where
  "is_valid_email email =
     (match_here ([Rep local_chars 1 None] @ lit ''@'' @ [Rep domain_chars 1 None] @ lit ''.'' @
                  [Rep tld_chars 2 None, EndAnchor]) False None email \<noteq> None)"

text \<open>
  \<^verbatim>\<open>
  mailto_links = soup.find_all('a', href=re.compile(r'mailto:', re.I))
  for link in mailto_links:
      href = link.get('href', '')
      if href.startswith('mailto:'):
          email = href.replace('mailto:', '').split('?')[0]
          if self.is_valid_email(email):
              return email
  ...
  for email in all_emails:
      cleaned = email.replace('[at]', '@').replace('[dot]', '.').replace(' ', '')
      if self.is_valid_email(cleaned):
          if not any(generic in cleaned.lower() for generic in ['noreply', 'webmaster', 'admin@university']):
              return cleaned
  return ""
  \<close>
\<close>

definition mailto_links :: "element \<Rightarrow> string list" where
  "mailto_links soup = filter (\<lambda>href. sublist ''mailto:'' (lower href)) (anchor_hrefs soup)"

definition mailto_address :: "string \<Rightarrow> string" where
  "mailto_address href = hd (split_on (CHR ''?'') (replace ''mailto:'' [] href))"

fun first_mailto :: "string list \<Rightarrow> string option" where
  "first_mailto [] = None"
| "first_mailto (href # links) =
     (if prefix ''mailto:'' href \<and> is_valid_email (mailto_address href)
      then Some (mailto_address href)
      else first_mailto links)"

fun first_valid_email :: "string list \<Rightarrow> string" where
  "first_valid_email [] = []"
| "first_valid_email (email # rest) =
     (let cleaned = clean_email email in
      if is_valid_email cleaned \<and>
         \<not> list_ex (\<lambda>generic. sublist generic (lower cleaned))
              [''noreply'', ''webmaster'', ''admin@university'']
      then cleaned
      else first_valid_email rest)"

definition extract_enhanced_email :: "string \<Rightarrow> element \<Rightarrow> string" where
  "extract_enhanced_email page_text soup =
     (case first_mailto (mailto_links soup) of
        Some email \<Rightarrow> email
      | None \<Rightarrow> first_valid_email (all_emails page_text))"

section \<open>Phone extraction\<close>

text \<open>
  \<^verbatim>\<open>
  phone_patterns = [
      r'\(?\d{3}\)?[-.\s]?\d{3}[-.\s]?\d{4}',
      r'\+?1?[-.\s]?\(?\d{3}\)?[-.\s]?\d{3}[-.\s]?\d{4}',
      r'\d{3}[-.\s]?\d{3}[-.\s]?\d{4}',
      r'\d{3}\.\d{3}\.\d{4}',
      r'\d{10}',
  ]
  for pattern in phone_patterns:
      phones = re.findall(pattern, text)
      if phones:
          phone = phones[0].strip()
          if len(re.sub(r'[^\d]', '', phone)) == 10:
              return phone
  return ""
  \<close>
\<close>

definition us_format :: "item list" where
  "us_format =
     [Rep ''('' 0 (Some 1), Rep digit_chars 3 (Some 3), Rep '')'' 0 (Some 1),
      Rep separator_chars 0 (Some 1), Rep digit_chars 3 (Some 3),
      Rep separator_chars 0 (Some 1), Rep digit_chars 4 (Some 4)]"

definition simple_format :: "item list" where
  "simple_format =
     [Rep digit_chars 3 (Some 3), Rep separator_chars 0 (Some 1), Rep digit_chars 3 (Some 3),
      Rep separator_chars 0 (Some 1), Rep digit_chars 4 (Some 4)]"

definition phone_patterns :: "item list list" where
  "phone_patterns =
     [us_format,
      [Rep ''+'' 0 (Some 1), Rep ''1'' 0 (Some 1), Rep separator_chars 0 (Some 1)] @ us_format,
      simple_format,
      [Rep digit_chars 3 (Some 3)] @ lit ''.'' @ [Rep digit_chars 3 (Some 3)] @ lit ''.'' @
        [Rep digit_chars 4 (Some 4)],
      [Rep digit_chars 10 (Some 10)]]"

definition digits_of :: "string \<Rightarrow> string" where
  "digits_of phone = filter is_digit phone"

fun first_phone :: "string \<Rightarrow> item list list \<Rightarrow> string" where
  "first_phone s [] = []"
| "first_phone s (pattern # patterns) =
     (case findall pattern False s of
        [] \<Rightarrow> first_phone s patterns
      | found # others \<Rightarrow>
          (let phone = strip found in
           if length (digits_of phone) = 10 then phone else first_phone s patterns))"

definition extract_phone_from_text :: "string \<Rightarrow> string" where
  "extract_phone_from_text s = first_phone s phone_patterns"

text \<open>
  \<^verbatim>\<open>
  def format_phone(self, phone):
      digits = re.sub(r'[^\d]', '', phone)
      if len(digits) == 10:
          return f"({digits[:3]}) {digits[3:6]}-{digits[6:]}"
      elif len(digits) == 11 and digits[0] == '1':
          return f"({digits[1:4]}) {digits[4:7]}-{digits[7:]}"
      return phone
  \<close>
\<close>

definition format_phone :: "string \<Rightarrow> string" where
  "format_phone phone =
     (let digits = digits_of phone in
      if length digits = 10
      then ''('' @ take 3 digits @ '') '' @ take 3 (drop 3 digits) @ ''-'' @ drop 6 digits
      else if length digits = 11 \<and> hd digits = CHR ''1''
      then ''('' @ take 3 (drop 1 digits) @ '') '' @ take 3 (drop 4 digits) @ ''-'' @ drop 7 digits
      else phone)"

text \<open>
  \<open>extract_enhanced_phone\<close> of the enhanced scraper: \<open>tel:\<close> links first, then three
  patterns (the third is the simple format between word boundaries); every number it
  returns goes through \<open>format_phone\<close>.
\<close>

definition tel_links :: "element \<Rightarrow> string list" where
  "tel_links soup = filter (\<lambda>href. sublist ''tel:'' (lower href)) (anchor_hrefs soup)"

fun first_tel :: "string list \<Rightarrow> string option" where
  "first_tel [] = None"
| "first_tel (href # links) =
     (if prefix ''tel:'' href \<and> length (digits_of (replace ''tel:'' [] href)) = 10
      then Some (format_phone (replace ''tel:'' [] href))
      else first_tel links)"

definition enhanced_phone_patterns :: "item list list" where
  "enhanced_phone_patterns =
     [us_format,
      [Rep ''+'' 0 (Some 1), Rep ''1'' 0 (Some 1), Rep separator_chars 0 (Some 1)] @ us_format,
      [WordBoundary] @ simple_format @ [WordBoundary]]"

fun first_ten_digit :: "string list \<Rightarrow> string option" where
  "first_ten_digit [] = None"
| "first_ten_digit (phone # phones) =
     (if length (digits_of phone) = 10 then Some (format_phone phone)
      else first_ten_digit phones)"

fun first_enhanced_phone :: "string \<Rightarrow> item list list \<Rightarrow> string" where
  "first_enhanced_phone s [] = []"
| "first_enhanced_phone s (pattern # patterns) =
     (case first_ten_digit (findall pattern False s) of
        Some phone \<Rightarrow> phone
      | None \<Rightarrow> first_enhanced_phone s patterns)"

definition extract_enhanced_phone :: "string \<Rightarrow> element \<Rightarrow> string" where
  "extract_enhanced_phone page_text soup =
     (case first_tel (tel_links soup) of
        Some phone \<Rightarrow> phone
      | None \<Rightarrow> first_enhanced_phone page_text enhanced_phone_patterns)"

text \<open>
  The canonical format of the specification, \<open>(XXX) XXX-XXXX\<close> with ten digits for the
  \<open>X\<close>, as a predicate on strings.
\<close>

definition canonical_phone :: "string \<Rightarrow> bool" where
  "canonical_phone s =
     (length s = 14 \<and> take 1 s = ''('' \<and> list_all is_digit (take 3 (drop 1 s)) \<and>
      take 2 (drop 4 s) = '') '' \<and> list_all is_digit (take 3 (drop 6 s)) \<and>
      take 1 (drop 9 s) = ''-'' \<and> list_all is_digit (drop 10 s))"

section \<open>Properties of duplicate removal\<close>

lemma dedup_loop_acc:
  "snd (dedup_loop S U os) = U @ snd (dedup_loop S [] os)"
proof (induction os arbitrary: S U)
  case Nil
  show ?case by simp
next
  case (Cons a os)
  show ?case
    using Cons.IH [of "insert (name_key a) S" "U @ [a]"]
          Cons.IH [of "insert (name_key a) S" "[a]"]
          Cons.IH [of S U]
    by (simp add: Let_def)
qed

lemma firsts_Cons:
  "snd (dedup_loop S [] (a # os)) =
     (if name_key a \<noteq> [] \<and> name_key a \<notin> S
      then a # snd (dedup_loop (insert (name_key a) S) [] os)
      else snd (dedup_loop S [] os))"
  using dedup_loop_acc [of "insert (name_key a) S" "[a]" os]
  by (simp add: Let_def)

lemma fst_dedup_loop:
  "fst (dedup_loop S U os) = S \<union> name_key ` set (snd (dedup_loop S [] os))"
proof (induction os arbitrary: S U)
  case Nil
  show ?case by simp
next
  case (Cons a os)
  show ?case
  proof (cases "name_key a \<noteq> [] \<and> name_key a \<notin> S")
    case True
    then show ?thesis
      using Cons.IH [of "insert (name_key a) S" "U @ [a]"]
      by (subst firsts_Cons) (simp add: Let_def)
  next
    case False
    then show ?thesis
      using Cons.IH [of S U] by (subst firsts_Cons) (auto simp add: Let_def)
  qed
qed

lemma firsts_member:
  "x \<in> set (snd (dedup_loop S [] os)) \<Longrightarrow> x \<in> set os \<and> name_key x \<noteq> [] \<and> name_key x \<notin> S"
proof (induction os arbitrary: S)
  case Nil
  then show ?case by simp
next
  case (Cons a os)
  then show ?case
    by (fastforce simp add: firsts_Cons simp del: dedup_loop.simps(2) split: if_splits)
qed

lemma firsts_distinct: "distinct (map name_key (snd (dedup_loop S [] os)))"
proof (induction os arbitrary: S)
  case Nil
  show ?case by simp
next
  case (Cons a os)
  have "name_key a \<notin> name_key ` set (snd (dedup_loop (insert (name_key a) S) [] os))"
    using firsts_member [of _ "insert (name_key a) S" os] by force
  then show ?case
    using Cons.IH by (simp add: firsts_Cons del: dedup_loop.simps(2))
qed

lemma firsts_subseq: "subseq (snd (dedup_loop S [] os)) os"
proof (induction os arbitrary: S)
  case Nil
  show ?case by simp
next
  case (Cons a os)
  show ?case
    using Cons.IH [of S] Cons.IH [of "insert (name_key a) S"]
    by (simp add: firsts_Cons list_emb_Cons del: dedup_loop.simps(2))
qed

lemma firsts_fixed:
  "distinct (map name_key xs) \<Longrightarrow> \<forall>x\<in>set xs. name_key x \<noteq> [] \<and> name_key x \<notin> S
     \<Longrightarrow> snd (dedup_loop S [] xs) = xs"
proof (induction xs arbitrary: S)
  case Nil
  show ?case by simp
next
  case (Cons a xs)
  from Cons.prems(1) have "name_key a \<notin> set (map name_key xs)" by simp
  then have "\<forall>x\<in>set xs. name_key x \<noteq> name_key a" by (metis image_eqI set_map)
  with Cons.prems(2)
  have "\<forall>x\<in>set xs. name_key x \<noteq> [] \<and> name_key x \<notin> insert (name_key a) S"
    by simp
  then have "snd (dedup_loop (insert (name_key a) S) [] xs) = xs"
    using Cons.prems(1) by (intro Cons.IH) simp_all
  then show ?case using Cons.prems by (simp add: firsts_Cons del: dedup_loop.simps(2))
qed

lemma firsts_group:
  "filter (\<lambda>x. name_key x = k) (snd (dedup_loop S [] os)) =
     (if k \<noteq> [] \<and> k \<notin> S
      then (case find (\<lambda>r. name_key r = k) os of None \<Rightarrow> [] | Some r \<Rightarrow> [r])
      else [])"
proof (induction os arbitrary: S)
  case Nil
  show ?case by simp
next
  case (Cons a os)
  have none: "filter (\<lambda>x. name_key x = k) (snd (dedup_loop (insert k S) [] os)) = []"
    using Cons.IH [of "insert k S"] by simp
  show ?case
    using Cons.IH [of S] Cons.IH [of "insert (name_key a) S"] none
    by (auto simp add: firsts_Cons simp del: dedup_loop.simps(2))
qed


lemma find_in_set: "x \<in> set xs \<Longrightarrow> P x \<Longrightarrow> \<exists>y. find P xs = Some y"
  by (cases "find P xs") (auto simp: find_None_iff)

lemma dedup_loop_append:
  "dedup_loop S U (xs @ ys) = dedup_loop (fst (dedup_loop S U xs)) (snd (dedup_loop S U xs)) ys"
  by (induction xs arbitrary: S U) (simp_all add: Let_def)

lemma page_result_is_dedup:
  "\<exists>orgs. snd (extract_organizations_from_page soup base_url expected_count) = remove_duplicates orgs"
proof -
  have resume: "snd (dedup_loop (fst (dedup_loop {} [] xs)) (snd (dedup_loop {} [] xs)) ys)
                  = remove_duplicates (xs @ ys)" for xs ys
    by (simp add: remove_duplicates_def dedup_loop_append)
  have shape: "\<exists>xs. snd (extract_organizations_from_page soup base_url expected_count)
       = (if below_30_percent (length (remove_duplicates xs)) expected_count
          then snd (dedup_loop (fst (dedup_loop {} [] xs)) (snd (dedup_loop {} [] xs))
                 (extract_from_general_content soup base_url))
          else remove_duplicates xs)"
    unfolding extract_organizations_from_page_def Let_def split_def remove_duplicates_def
    by (rule exI) (simp only: snd_conv if_distrib [of snd] cong: if_cong)
  then show ?thesis unfolding resume by (metis (full_types))
qed

text \<open>
  C8: for every input list, no two records of the deduplicator's output have the same
  name after trimming and lower-casing; the same holds for the final result set the page
  extractor returns for one document, where the loop is resumed on the raw-text records.
\<close>
theorem dedup_unique:
  "distinct (map name_key (remove_duplicates orgs)) \<and>
   distinct (map name_key (snd (extract_organizations_from_page soup base_url expected_count)))"
proof -
  obtain os where "snd (extract_organizations_from_page soup base_url expected_count) = remove_duplicates os"
    using page_result_is_dedup by blast
  then show ?thesis by (simp add: remove_duplicates_def firsts_distinct)
qed

theorem dedup_unique_witness:
  "distinct (map name_key (remove_duplicates
      [org_data\<lparr>Organization_Name := ''Chess Club''\<rparr>,
       org_data\<lparr>Organization_Name := '' CHESS CLUB ''\<rparr>])) \<and>
   distinct (map name_key (snd (extract_organizations_from_page
      \<lparr>structured_organizations = [org_data\<lparr>Organization_Name := ''Chess Club''\<rparr>],
       list_based_organizations = [org_data\<lparr>Organization_Name := ''chess club''\<rparr>],
       heading_based_organizations = [], linked_organizations = [],
       text_content = ''Chess Club''\<rparr> ''https://www.bhsu.edu'' 10)))"
  by (rule dedup_unique)

text \<open>
  C9: deduplication is idempotent: applying the deduplicator to its own output returns
  that output.
\<close>
theorem dedup_idem: "remove_duplicates (remove_duplicates orgs) = remove_duplicates orgs"
proof -
  have "\<forall>x\<in>set (snd (dedup_loop {} [] orgs)). name_key x \<noteq> [] \<and> name_key x \<notin> {}"
    using firsts_member [of _ "{}" orgs] by simp
  then show ?thesis
    unfolding remove_duplicates_def by (intro firsts_fixed firsts_distinct)
qed

theorem dedup_idem_witness:
  "remove_duplicates (remove_duplicates
      [org_data\<lparr>Organization_Name := ''Chess Club'', Email := ''chess@bhsu.edu''\<rparr>,
       org_data\<lparr>Organization_Name := '' chess club '', Phone_Number := ''(605) 555-0100''\<rparr>])
   = [org_data\<lparr>Organization_Name := ''Chess Club'', Email := ''chess@bhsu.edu''\<rparr>]"
proof -
  have "remove_duplicates
      [org_data\<lparr>Organization_Name := ''Chess Club'', Email := ''chess@bhsu.edu''\<rparr>,
       org_data\<lparr>Organization_Name := '' chess club '', Phone_Number := ''(605) 555-0100''\<rparr>]
   = [org_data\<lparr>Organization_Name := ''Chess Club'', Email := ''chess@bhsu.edu''\<rparr>]"
    by code_simp
  then show ?thesis
    using dedup_idem [of "[org_data\<lparr>Organization_Name := ''Chess Club'', Email := ''chess@bhsu.edu''\<rparr>,
       org_data\<lparr>Organization_Name := '' chess club '', Phone_Number := ''(605) 555-0100''\<rparr>]"]
    by simp
qed

lemma output_keys:
  "name_key ` set (remove_duplicates xs) = name_key ` set xs - {[]}"
proof (intro set_eqI iffI)
  fix k assume "k \<in> name_key ` set (remove_duplicates xs)"
  then show "k \<in> name_key ` set xs - {[]}"
    using firsts_member [of _ "{}" xs] by (auto simp: remove_duplicates_def)
next
  fix k assume "k \<in> name_key ` set xs - {[]}"
  then obtain r where r: "r \<in> set xs" "name_key r = k" "k \<noteq> []" by auto
  then obtain f where f: "find (\<lambda>x. name_key x = k) xs = Some f"
    using find_in_set [of r xs "\<lambda>x. name_key x = k"] by auto
  have "filter (\<lambda>x. name_key x = k) (remove_duplicates xs) = [f]"
    using r(3) f firsts_group [of k "{}" xs] by (simp add: remove_duplicates_def)
  then have "f \<in> set (filter (\<lambda>x. name_key x = k) (remove_duplicates xs))" by simp
  then show "k \<in> name_key ` set (remove_duplicates xs)" by auto
qed

lemma remove_duplicates_snoc:
  "remove_duplicates (xs @ [x]) =
     remove_duplicates xs @
     (if name_key x \<noteq> [] \<and> name_key x \<notin> set (map name_key xs) then [x] else [])"
proof -
  have seen: "fst (dedup_loop {} [] xs) = name_key ` set xs - {[]}"
    using fst_dedup_loop [of "{}" "[]" xs] output_keys [of xs]
    by (simp add: remove_duplicates_def)
  show ?thesis
    unfolding remove_duplicates_def dedup_loop_append [of "{}" "[]" xs "[x]"] seen
    by (auto simp: Let_def)
qed

lemma remove_duplicates_by_index:
  "remove_duplicates orgs =
     map (\<lambda>i. orgs ! i)
       (filter (\<lambda>i. name_key (orgs ! i) \<noteq> [] \<and>
                     name_key (orgs ! i) \<notin> set (map name_key (take i orgs)))
          [0..<length orgs])"
proof (induction orgs rule: rev_induct)
  case Nil
  show ?case by (simp add: remove_duplicates_def)
next
  case (snoc x xs)
  let ?P = "\<lambda>ys i. name_key (ys ! i) \<noteq> [] \<and> name_key (ys ! i) \<notin> set (map name_key (take i ys))"
  have f: "filter (?P (xs @ [x])) [0..<length xs] = filter (?P xs) [0..<length xs]"
    by (rule filter_cong) (auto simp: nth_append)
  have m: "map (\<lambda>i. (xs @ [x]) ! i) (filter (?P xs) [0..<length xs])
             = map (\<lambda>i. xs ! i) (filter (?P xs) [0..<length xs])"
    by (rule map_cong) (auto simp: nth_append)
  have l: "map (\<lambda>i. (xs @ [x]) ! i) (filter (?P (xs @ [x])) [length xs])
             = (if name_key x \<noteq> [] \<and> name_key x \<notin> set (map name_key xs) then [x] else [])"
    by simp
  have "map (\<lambda>i. (xs @ [x]) ! i) (filter (?P (xs @ [x])) [0..<length (xs @ [x])])
          = map (\<lambda>i. (xs @ [x]) ! i) (filter (?P (xs @ [x])) [0..<length xs])
            @ map (\<lambda>i. (xs @ [x]) ! i) (filter (?P (xs @ [x])) [length xs])"
    by simp
  also have "\<dots> = remove_duplicates xs @
      (if name_key x \<noteq> [] \<and> name_key x \<notin> set (map name_key xs) then [x] else [])"
    unfolding f m l using snoc.IH by simp
  finally show ?case by (simp only: remove_duplicates_snoc)
qed

text \<open>
  C10: the output consists of exactly the input records that are the first to bear their
  (non-empty) normalized name, each taken as it is and in input order, so output records
  appear in the order of their first discovery: the output is the input read off at the
  positions whose name key is non-empty and does not occur at an earlier position. In
  particular the output is a subsequence of the input, and each output record is the first
  input record bearing its normalized name; no record is synthesized.
\<close>

theorem dedup_keeps_first:
  "remove_duplicates orgs =
     map (\<lambda>i. orgs ! i)
       (filter (\<lambda>i. name_key (orgs ! i) \<noteq> [] \<and>
                     name_key (orgs ! i) \<notin> set (map name_key (take i orgs)))
          [0..<length orgs]) \<and>
   subseq (remove_duplicates orgs) orgs \<and>
   (\<forall>x \<in> set (remove_duplicates orgs). find (\<lambda>r. name_key r = name_key x) orgs = Some x)"
proof -
  have "find (\<lambda>r. name_key r = name_key x) orgs = Some x"
    if "x \<in> set (remove_duplicates orgs)" for x
  proof -
    let ?k = "name_key x"
    have x: "x \<in> set orgs" "?k \<noteq> []"
      using that firsts_member [of x "{}" orgs] by (simp_all add: remove_duplicates_def)
    then obtain y where y: "find (\<lambda>r. name_key r = ?k) orgs = Some y"
      using find_in_set [of x orgs "\<lambda>r. name_key r = ?k"] by auto
    have "filter (\<lambda>r. name_key r = ?k) (remove_duplicates orgs) = [y]"
      using x(2) y firsts_group [of ?k "{}" orgs] by (simp add: remove_duplicates_def)
    moreover have "x \<in> set (filter (\<lambda>r. name_key r = ?k) (remove_duplicates orgs))"
      using that by simp
    ultimately have "x = y" by simp
    with y show ?thesis by simp
  qed
  moreover have "subseq (remove_duplicates orgs) orgs"
    by (simp add: remove_duplicates_def firsts_subseq)
  ultimately show ?thesis
    using remove_duplicates_by_index [of orgs] by blast
qed

theorem dedup_keeps_first_witness:
  "remove_duplicates
      [org_data\<lparr>Organization_Name := ''Chess Club'', Email := ''chess@bhsu.edu''\<rparr>,
       org_data\<lparr>Organization_Name := ''Drama Society''\<rparr>,
       org_data\<lparr>Organization_Name := '' chess club '', Phone_Number := ''(605) 555-0100''\<rparr>]
   = [org_data\<lparr>Organization_Name := ''Chess Club'', Email := ''chess@bhsu.edu''\<rparr>,
      org_data\<lparr>Organization_Name := ''Drama Society''\<rparr>]"
proof -
  let ?orgs = "[org_data\<lparr>Organization_Name := ''Chess Club'', Email := ''chess@bhsu.edu''\<rparr>,
       org_data\<lparr>Organization_Name := ''Drama Society''\<rparr>,
       org_data\<lparr>Organization_Name := '' chess club '', Phone_Number := ''(605) 555-0100''\<rparr>]"
  have v: "map (\<lambda>i. ?orgs ! i)
       (filter (\<lambda>i. name_key (?orgs ! i) \<noteq> [] \<and>
                     name_key (?orgs ! i) \<notin> set (map name_key (take i ?orgs)))
          [0..<length ?orgs])
     = [org_data\<lparr>Organization_Name := ''Chess Club'', Email := ''chess@bhsu.edu''\<rparr>,
        org_data\<lparr>Organization_Name := ''Drama Society''\<rparr>]"
    by code_simp
  have "remove_duplicates ?orgs = map (\<lambda>i. ?orgs ! i)
       (filter (\<lambda>i. name_key (?orgs ! i) \<noteq> [] \<and>
                     name_key (?orgs ! i) \<notin> set (map name_key (take i ?orgs)))
          [0..<length ?orgs])"
    using dedup_keeps_first [of ?orgs] by blast
  then show ?thesis using v by (rule trans)
qed

text \<open>
  C1 (as the code has it): for every record of the input whose normalized name is not
  empty, the output holds exactly one record with that normalized name, and it is the
  first input record with that name, unchanged. Fields of later records of the group are
  not merged in: with an email-only record followed by a phone-only record of the same
  name, the output record has the email and no phone.
\<close>
theorem dedup_first_wins:
  assumes "r \<in> set orgs" and "name_key r \<noteq> []"
  shows "\<exists>f. find (\<lambda>x. name_key x = name_key r) orgs = Some f \<and>
             filter (\<lambda>x. name_key x = name_key r) (remove_duplicates orgs) = [f]"
proof -
  obtain f where f: "find (\<lambda>x. name_key x = name_key r) orgs = Some f"
    using find_in_set [of r orgs "\<lambda>x. name_key x = name_key r"] assms(1) by auto
  have "filter (\<lambda>x. name_key x = name_key r) (remove_duplicates orgs) = [f]"
    using assms(2) f firsts_group [of "name_key r" "{}" orgs] by (simp add: remove_duplicates_def)
  with f show ?thesis by simp
qed

theorem dedup_first_wins_witness:
  "filter (\<lambda>x. name_key x = name_key (org_data\<lparr>Organization_Name := '' chess club '', Phone_Number := ''(605) 555-0100''\<rparr>))
     (remove_duplicates
       [org_data\<lparr>Organization_Name := ''Chess Club'', Email := ''chess@bhsu.edu''\<rparr>,
        org_data\<lparr>Organization_Name := '' chess club '', Phone_Number := ''(605) 555-0100''\<rparr>])
   = [org_data\<lparr>Organization_Name := ''Chess Club'', Email := ''chess@bhsu.edu''\<rparr>]"
proof -
  let ?a = "org_data\<lparr>Organization_Name := ''Chess Club'', Email := ''chess@bhsu.edu''\<rparr>"
  let ?b = "org_data\<lparr>Organization_Name := '' chess club '', Phone_Number := ''(605) 555-0100''\<rparr>"
  have k: "name_key ?b \<noteq> []" by code_simp
  have f: "find (\<lambda>x. name_key x = name_key ?b) [?a, ?b] = Some ?a" by code_simp
  show ?thesis
    using dedup_first_wins [of ?b "[?a, ?b]"] k f by simp
qed

text \<open>
  No merge takes place: an email-only record followed by a phone-only record of the same
  normalized name leaves no output record that carries both values.
\<close>

theorem dedup_merge_counterexample:
  "\<not> (\<exists>x \<in> set (remove_duplicates
       [org_data\<lparr>Organization_Name := ''Chess Club'', Email := ''chess@bhsu.edu''\<rparr>,
        org_data\<lparr>Organization_Name := '' chess club '', Phone_Number := ''(605) 555-0100''\<rparr>]).
        Email x = ''chess@bhsu.edu'' \<and> Phone_Number x = ''(605) 555-0100'')"
  by code_simp


section \<open>Properties of the classifier and of the name predicate\<close>

lemma first_category_find:
  "first_category text table =
     (case find (\<lambda>(category, keywords). list_ex (\<lambda>keyword. sublist keyword text) keywords) table of
        None \<Rightarrow> ''General'' | Some (category, keywords) \<Rightarrow> category)"
  by (induction table) auto

lemma first_category_label:
  "first_category text table \<in> set (map fst table) \<union> {''General''}"
  by (induction "text" table rule: first_category.induct) (auto simp: image_iff)

text \<open>
  C4: the classifier is a total function of (name, description): it lower-cases the name,
  a space and the description joined together, tests the keyword lists in the fixed table
  order Academic, Arts, Athletics, Cultural, Greek Life, Professional, Religious, Service,
  Student Government, Special Interest, returns the first category with a keyword that
  occurs in the text, and \<open>General\<close> when none does; the result is always one of the
  eleven labels.
\<close>

theorem determine_category_first_match:
  "determine_category name description \<in>
     set [''Academic'', ''Arts'', ''Athletics'', ''Cultural'', ''Greek Life'', ''Professional'',
          ''Religious'', ''Service'', ''Student Government'', ''Special Interest'', ''General''] \<and>
   map fst category_keywords =
     [''Academic'', ''Arts'', ''Athletics'', ''Cultural'', ''Greek Life'', ''Professional'',
      ''Religious'', ''Service'', ''Student Government'', ''Special Interest''] \<and>
   determine_category name description =
     (case find (\<lambda>(category, keywords).
             list_ex (\<lambda>keyword. sublist keyword (lower (name @ '' '' @ description))) keywords)
           category_keywords of
        None \<Rightarrow> ''General'' | Some (category, keywords) \<Rightarrow> category)"
proof -
  have labels: "map fst category_keywords =
     [''Academic'', ''Arts'', ''Athletics'', ''Cultural'', ''Greek Life'', ''Professional'',
      ''Religious'', ''Service'', ''Student Government'', ''Special Interest'']"
    by (simp add: category_keywords_def)
  have "determine_category name description \<in> set (map fst category_keywords) \<union> {''General''}"
    unfolding determine_category_def by (rule first_category_label)
  then have "determine_category name description \<in>
     set [''Academic'', ''Arts'', ''Athletics'', ''Cultural'', ''Greek Life'', ''Professional'',
          ''Religious'', ''Service'', ''Student Government'', ''Special Interest'', ''General'']"
    unfolding labels by auto
  moreover note labels
  moreover have "determine_category name description =
     (case find (\<lambda>(category, keywords).
             list_ex (\<lambda>keyword. sublist keyword (lower (name @ '' '' @ description))) keywords)
           category_keywords of
        None \<Rightarrow> ''General'' | Some (category, keywords) \<Rightarrow> category)"
    unfolding determine_category_def by (rule first_category_find)
  ultimately show ?thesis by blast
qed

theorem determine_category_first_match_witness:
  "determine_category ''Honor Band'' '''' = ''Academic'' \<and>
   determine_category ''Chess Club'' ''meets weekly'' = ''General''"
proof -
  have a: "find (\<lambda>(category, keywords).
             list_ex (\<lambda>keyword. sublist keyword (lower (''Honor Band'' @ '' '' @ ''''))) keywords)
           category_keywords = Some (category_keywords ! 0)"
    by code_simp
  have a': "fst (category_keywords ! 0) = ''Academic''" by code_simp
  have b: "find (\<lambda>(category, keywords).
             list_ex (\<lambda>keyword. sublist keyword (lower (''Chess Club'' @ '' '' @ ''meets weekly''))) keywords)
           category_keywords = None"
    by code_simp
  show ?thesis
    using determine_category_first_match [of "''Honor Band''" "''''"]
          determine_category_first_match [of "''Chess Club''" "''meets weekly''"] a a' b
    by (simp add: split_def)
qed

lemma dropWhile_keeps:
  "t \<noteq> [] \<Longrightarrow> \<not> P (hd t) \<Longrightarrow> \<exists>ps'. dropWhile P (ps @ t @ ss) = ps' @ t @ ss"
proof (induction ps)
  case Nil
  then show ?case by (cases t) auto
next
  case (Cons a ps)
  then show ?case by (cases "P a") auto
qed

lemma sublist_strip:
  assumes "sublist t s" "t \<noteq> []" "\<not> is_space (hd t)" "\<not> is_space (last t)"
  shows "sublist t (strip s)"
proof -
  obtain ps ss where s: "s = ps @ t @ ss"
    using assms(1) by (auto simp: sublist_def)
  obtain ps' where 1: "dropWhile is_space (ps @ t @ ss) = ps' @ t @ ss"
    using dropWhile_keeps [of t is_space ps ss] assms(2,3) by blast
  have "rev t \<noteq> []" "\<not> is_space (hd (rev t))"
    using assms(2,4) by (simp_all add: hd_rev)
  then obtain ss' where 2: "dropWhile is_space (rev ss @ rev t @ rev ps') = ss' @ rev t @ rev ps'"
    using dropWhile_keeps [of "rev t" is_space "rev ss" "rev ps'"] by blast
  have "strip s = ps' @ t @ rev ss'"
    by (simp add: strip_def s 1 2)
  then show ?thesis by simp
qed

lemma skip_terms_edges:
  "list_all (\<lambda>t. t \<noteq> [] \<and> \<not> is_space (hd t) \<and> \<not> is_space (last t)) skip_terms"
  by code_simp

text \<open>
  C3: every text whose lower-cased form contains a term of the disallow-list is rejected by
  the entity-name predicate, whatever else it contains (an indicator keyword such as
  \<open>club\<close> included): the disallow-list test comes before both accept conditions. This
  holds for the predicate of the comprehensive scraper and for the variant of the scraper
  for universities 91 to 100, each with its own list.
\<close>

theorem disallow_list_rejects:
  "(list_ex (\<lambda>term. sublist term (lower text)) skip_terms
      \<longrightarrow> \<not> is_likely_organization_name text) \<and>
   (list_ex (\<lambda>term. sublist term (lower text)) skip_terms_91_100
      \<longrightarrow> \<not> is_likely_organization_name_91_100 text)"
proof (intro conjI impI)
  assume "list_ex (\<lambda>term. sublist term (lower text)) skip_terms"
  then obtain t where t: "t \<in> set skip_terms" "sublist t (lower text)"
    by (auto simp: list_ex_iff)
  then have "t \<noteq> [] \<and> \<not> is_space (hd t) \<and> \<not> is_space (last t)"
    using skip_terms_edges by (simp add: list_all_iff)
  then have "sublist t (strip (lower text))"
    using t(2) by (simp add: sublist_strip)
  then have "list_ex (\<lambda>term. sublist term (strip (lower text))) skip_terms"
    using t(1) by (auto simp: list_ex_iff)
  then show "\<not> is_likely_organization_name text"
    by (simp add: is_likely_organization_name_def Let_def)
next
  assume "list_ex (\<lambda>term. sublist term (lower text)) skip_terms_91_100"
  then show "\<not> is_likely_organization_name_91_100 text"
    by (simp add: is_likely_organization_name_91_100_def Let_def)
qed

theorem disallow_list_rejects_witness:
  "\<not> is_likely_organization_name ''Campus Chess Club'' \<and>
   \<not> is_likely_organization_name_91_100 ''Campus Chess Club''"
proof -
  have a: "list_ex (\<lambda>term. sublist term (lower ''Campus Chess Club'')) skip_terms"
    by code_simp
  have b: "list_ex (\<lambda>term. sublist term (lower ''Campus Chess Club'')) skip_terms_91_100"
    by code_simp
  show ?thesis
    using disallow_list_rejects [of "''Campus Chess Club''"] a b by blast
qed


section \<open>Properties of the strategy cascade\<close>

lemma remove_duplicates_length: "length (remove_duplicates orgs) \<le> length orgs"
  using firsts_subseq [of "{}" orgs] by (simp add: remove_duplicates_def list_emb_length)

lemma calls_of_page:
  "fst (extract_organizations_from_page soup base_url e) =
     (let o1 = structured_organizations soup;
          o2 = (if below_half (length o1) e then o1 @ list_based_organizations soup else o1);
          o3 = (if below_half (length o2) e then o2 @ heading_based_organizations soup else o2);
          o4 = (if below_30_percent (length o3) e then o3 @ linked_organizations soup else o3)
      in [Structured]
         @ (if below_half (length o1) e then [ListBased] else [])
         @ (if below_half (length o2) e then [HeadingBased] else [])
         @ (if below_30_percent (length o3) e then [Linked] else [])
         @ (if below_30_percent (length (remove_duplicates o4)) e then [GeneralContent] else []))"
  unfolding extract_organizations_from_page_def Let_def split_def remove_duplicates_def
  by (simp only: fst_conv snd_conv if_distrib [of fst] if_distrib [of snd] append_Nil2 cong: if_cong)
     (simp del: dedup_loop.simps)

text \<open>
  The gates as the code has them: the list-item strategy and the heading strategy are
  called exactly when the records accumulated so far (duplicates counted) number less than
  50% of \<open>expected_count\<close>, the linked-page strategy exactly when they number less than
  30% of it, and the raw-text fallback exactly when the de-duplicated records after steps
  1 to 4 number less than 30% of it.
\<close>

lemma cascade_gates:
  "(let o1 = structured_organizations soup;
        o2 = (if below_half (length o1) e then o1 @ list_based_organizations soup else o1);
        o3 = (if below_half (length o2) e then o2 @ heading_based_organizations soup else o2);
        o4 = (if below_30_percent (length o3) e then o3 @ linked_organizations soup else o3);
        calls = fst (extract_organizations_from_page soup base_url e)
    in (ListBased \<in> set calls \<longleftrightarrow> 2 * int (length o1) < e) \<and>
       (HeadingBased \<in> set calls \<longleftrightarrow> 2 * int (length o2) < e) \<and>
       (Linked \<in> set calls \<longleftrightarrow> 10 * int (length o3) < 3 * e) \<and>
       (GeneralContent \<in> set calls \<longleftrightarrow> 10 * int (length (remove_duplicates o4)) < 3 * e) \<and>
       (ListBased \<in> set calls \<longrightarrow> 2 * int (length (remove_duplicates o1)) < e) \<and>
       (HeadingBased \<in> set calls \<longrightarrow> 2 * int (length (remove_duplicates o2)) < e) \<and>
       (Linked \<in> set calls \<longrightarrow> 10 * int (length (remove_duplicates o3)) < 3 * e)) \<and>
   length (extract_from_general_content soup base_url) \<le> 50"
proof -
  define o1 where "o1 = structured_organizations soup"
  define o2 where "o2 = (if below_half (length o1) e then o1 @ list_based_organizations soup else o1)"
  define o3 where "o3 = (if below_half (length o2) e then o2 @ heading_based_organizations soup else o2)"
  define o4 where "o4 = (if below_30_percent (length o3) e then o3 @ linked_organizations soup else o3)"
  define calls where "calls = fst (extract_organizations_from_page soup base_url e)"
  have calls: "calls = [Structured]
         @ (if below_half (length o1) e then [ListBased] else [])
         @ (if below_half (length o2) e then [HeadingBased] else [])
         @ (if below_30_percent (length o3) e then [Linked] else [])
         @ (if below_30_percent (length (remove_duplicates o4)) e then [GeneralContent] else [])"
    unfolding calls_def calls_of_page o1_def o2_def o3_def o4_def Let_def by (rule refl)
  have le: "int (length (remove_duplicates xs)) \<le> int (length xs)" for xs
    using remove_duplicates_length [of xs] by simp
  have g2: "ListBased \<in> set calls \<longleftrightarrow> 2 * int (length o1) < e"
    by (simp add: calls below_half_def)
  have g3: "HeadingBased \<in> set calls \<longleftrightarrow> 2 * int (length o2) < e"
    by (simp add: calls below_half_def)
  have g4: "Linked \<in> set calls \<longleftrightarrow> 10 * int (length o3) < 3 * e"
    by (simp add: calls below_30_percent_def)
  have g5: "GeneralContent \<in> set calls \<longleftrightarrow> 10 * int (length (remove_duplicates o4)) < 3 * e"
    by (simp add: calls below_30_percent_def)
  have u2: "ListBased \<in> set calls \<longrightarrow> 2 * int (length (remove_duplicates o1)) < e"
    using g2 le [of o1] by linarith
  have u3: "HeadingBased \<in> set calls \<longrightarrow> 2 * int (length (remove_duplicates o2)) < e"
    using g3 le [of o2] by linarith
  have u4: "Linked \<in> set calls \<longrightarrow> 10 * int (length (remove_duplicates o3)) < 3 * e"
    using g4 le [of o3] by linarith
  have cap: "length (extract_from_general_content soup base_url) \<le> 50"
    by (simp add: extract_from_general_content_def Let_def)
  show ?thesis
    unfolding Let_def
    using g2 g3 g4 g5 u2 u3 u4 cap
    unfolding calls_def o4_def o3_def o2_def o1_def
    by blast
qed

text \<open>
  C2: the cascade is gated relative to \<open>expected_count\<close>. The list-item strategy and the
  heading strategy run only if the unique records accumulated before them number less than
  50% of \<open>expected_count\<close>; the linked-page strategy runs only if they number less than
  70% of it; the raw-text fallback runs only if the unique records after steps 1 to 4
  number less than 30% of it; and the fallback returns at most 50 records.
\<close>

theorem cascade_runs_only_below:
  "(let o1 = structured_organizations soup;
        o2 = (if below_half (length o1) e then o1 @ list_based_organizations soup else o1);
        o3 = (if below_half (length o2) e then o2 @ heading_based_organizations soup else o2);
        o4 = (if below_30_percent (length o3) e then o3 @ linked_organizations soup else o3);
        calls = fst (extract_organizations_from_page soup base_url e)
    in (ListBased \<in> set calls \<longrightarrow> 2 * int (length (remove_duplicates o1)) < e) \<and>
       (HeadingBased \<in> set calls \<longrightarrow> 2 * int (length (remove_duplicates o2)) < e) \<and>
       (Linked \<in> set calls \<longrightarrow> 10 * int (length (remove_duplicates o3)) < 7 * e) \<and>
       (GeneralContent \<in> set calls \<longrightarrow> 10 * int (length (remove_duplicates o4)) < 3 * e)) \<and>
   length (extract_from_general_content soup base_url) \<le> 50"
proof -
  have widen: "10 * n < 3 * e \<Longrightarrow> 10 * n < 7 * e" if "0 \<le> n" for n :: int
    using that by linarith
  show ?thesis
    using cascade_gates [of soup e base_url]
    unfolding Let_def
    by (intro conjI impI) (simp_all add: widen)
qed

theorem cascade_runs_only_below_witness:
  "fst (extract_organizations_from_page
      \<lparr>structured_organizations = [org_data\<lparr>Organization_Name := ''Chess Club''\<rparr>],
       list_based_organizations = [org_data\<lparr>Organization_Name := ''chess club''\<rparr>],
       heading_based_organizations = [],
       linked_organizations = [],
       text_content = ''Debate Union''\<rparr> ''https://www.bhsu.edu'' 10)
     = [Structured, ListBased, HeadingBased, Linked, GeneralContent] \<and>
   2 * int (length (remove_duplicates [org_data\<lparr>Organization_Name := ''Chess Club''\<rparr>])) < 10 \<and>
   10 * int (length (remove_duplicates
       [org_data\<lparr>Organization_Name := ''Chess Club''\<rparr>,
        org_data\<lparr>Organization_Name := ''chess club''\<rparr>])) < 7 * 10 \<and>
   10 * int (length (remove_duplicates
       [org_data\<lparr>Organization_Name := ''Chess Club''\<rparr>,
        org_data\<lparr>Organization_Name := ''chess club''\<rparr>])) < 3 * 10 \<and>
   length (extract_from_general_content
      \<lparr>structured_organizations = [org_data\<lparr>Organization_Name := ''Chess Club''\<rparr>],
       list_based_organizations = [org_data\<lparr>Organization_Name := ''chess club''\<rparr>],
       heading_based_organizations = [],
       linked_organizations = [],
       text_content = ''Debate Union''\<rparr> ''https://www.bhsu.edu'') \<le> 50"
proof -
  let ?p = "\<lparr>structured_organizations = [org_data\<lparr>Organization_Name := ''Chess Club''\<rparr>],
       list_based_organizations = [org_data\<lparr>Organization_Name := ''chess club''\<rparr>],
       heading_based_organizations = [],
       linked_organizations = [],
       text_content = ''Debate Union''\<rparr>"
  have calls: "fst (extract_organizations_from_page ?p ''https://www.bhsu.edu'' 10)
          = [Structured, ListBased, HeadingBased, Linked, GeneralContent]"
    by code_simp
  show ?thesis
    using cascade_runs_only_below [where soup = ?p and base_url = "''https://www.bhsu.edu''" and e = 10]
    unfolding calls Let_def
    by (simp add: below_half_def below_30_percent_def)
qed

text \<open>
  The gate of the linked-page strategy is tighter than 70%: with \<open>expected_count = 10\<close>
  and four unique records after the first three strategies, the strategy is not called.
\<close>

lemma linked_gate_example:
  "10 * int (length (remove_duplicates
       [org_data\<lparr>Organization_Name := ''Chess Club''\<rparr>,
        org_data\<lparr>Organization_Name := ''Drama Society''\<rparr>,
        org_data\<lparr>Organization_Name := ''Robotics Team''\<rparr>,
        org_data\<lparr>Organization_Name := ''Art Guild''\<rparr>])) < 7 * 10 \<and>
   Linked \<notin> set (fst (extract_organizations_from_page
      \<lparr>structured_organizations =
         [org_data\<lparr>Organization_Name := ''Chess Club''\<rparr>,
          org_data\<lparr>Organization_Name := ''Drama Society''\<rparr>,
          org_data\<lparr>Organization_Name := ''Robotics Team''\<rparr>,
          org_data\<lparr>Organization_Name := ''Art Guild''\<rparr>],
       list_based_organizations = [],
       heading_based_organizations = [],
       linked_organizations = [],
       text_content = []\<rparr> ''https://www.bhsu.edu'' 10))"
  by code_simp


section \<open>Properties of the phone extractors\<close>

lemma digits_of_append: "digits_of (a @ b) = digits_of a @ digits_of b"
  by (simp add: digits_of_def)

lemma digits_of_digits: "list_all is_digit d \<Longrightarrow> digits_of d = d"
  by (simp add: digits_of_def list_all_iff)

lemma digits_of_all: "list_all is_digit (digits_of p)"
  by (simp add: digits_of_def list_all_iff)

lemma three_three_rest: "take 3 d @ take 3 (drop 3 d) @ drop 6 d = d"
proof -
  have "take 3 d @ take 3 (drop 3 d) = take (3 + 3) d"
    by (simp only: take_add)
  then show ?thesis by (metis append_assoc append_take_drop_id numeral_Bit0)
qed

lemma digits_of_canonical:
  assumes "list_all is_digit d"
  shows "digits_of (''('' @ take 3 d @ '') '' @ take 3 (drop 3 d) @ ''-'' @ drop 6 d) = d"
proof -
  have t: "list_all is_digit (take 3 d)" "list_all is_digit (take 3 (drop 3 d))"
          "list_all is_digit (drop 6 d)"
    using assms by (auto simp: list_all_iff dest: in_set_takeD in_set_dropD)
  have p: "digits_of ''('' = []" "digits_of '') '' = []" "digits_of ''-'' = []"
    by (simp_all add: digits_of_def is_digit_def)
  show ?thesis
    by (simp only: digits_of_append p t [THEN digits_of_digits] append_Nil three_three_rest)
qed

lemma ten_elements:
  "length (d :: 'a list) = 10 \<Longrightarrow> \<exists>a b c e f g h i j k. d = [a, b, c, e, f, g, h, i, j, k]"
  by (auto simp: eval_nat_numeral length_Suc_conv)

lemma canonical_shape:
  assumes "list_all is_digit d" "length d = 10"
  shows "canonical_phone (''('' @ take 3 d @ '') '' @ take 3 (drop 3 d) @ ''-'' @ drop 6 d)"
proof -
  obtain a b c e f g h i j k where d: "d = [a, b, c, e, f, g, h, i, j, k]"
    using ten_elements [OF assms(2)] by blast
  show ?thesis
    using assms(1) unfolding d by (simp add: canonical_phone_def)
qed

lemma format_phone_ten:
  "length (digits_of p) = 10 \<Longrightarrow>
     format_phone p = ''('' @ take 3 (digits_of p) @ '') '' @ take 3 (drop 3 (digits_of p)) @ ''-''
                        @ drop 6 (digits_of p)"
  by (simp add: format_phone_def Let_def)

lemma format_phone_fixed:
  assumes "list_all is_digit d" "length d = 10"
  shows "format_phone (''('' @ take 3 d @ '') '' @ take 3 (drop 3 d) @ ''-'' @ drop 6 d)
           = ''('' @ take 3 d @ '') '' @ take 3 (drop 3 d) @ ''-'' @ drop 6 d"
  using assms by (simp only: format_phone_ten digits_of_canonical)

lemma format_phone_idem: "format_phone (format_phone p) = format_phone p"
proof -
  let ?d = "digits_of p"
  consider (ten) "length ?d = 10"
    | (eleven) "length ?d \<noteq> 10" "length ?d = 11 \<and> hd ?d = CHR ''1''"
    | (other) "length ?d \<noteq> 10" "\<not> (length ?d = 11 \<and> hd ?d = CHR ''1'')"
    by blast
  then show ?thesis
  proof cases
    case ten
    then show ?thesis
      using format_phone_fixed [of ?d] digits_of_all [of p] by (simp only: format_phone_ten)
  next
    case eleven
    let ?e = "drop 1 ?d"
    have e: "list_all is_digit ?e" "length ?e = 10"
      using eleven digits_of_all [of p] by (auto simp: list_all_iff dest: in_set_dropD)
    have "format_phone p = ''('' @ take 3 ?e @ '') '' @ take 3 (drop 3 ?e) @ ''-'' @ drop 6 ?e"
      using eleven by (simp add: format_phone_def Let_def)
    then show ?thesis
      using format_phone_fixed [OF e] by simp
  next
    case other
    then have "format_phone p = p" by (auto simp add: format_phone_def Let_def)
    then show ?thesis by simp
  qed
qed

lemma first_phone_find:
  "first_phone s patterns =
     (case find (\<lambda>pattern. findall pattern False s \<noteq> [] \<and>
                     length (digits_of (strip (hd (findall pattern False s)))) = 10) patterns of
        None \<Rightarrow> []
      | Some pattern \<Rightarrow> strip (hd (findall pattern False s)))"
  by (induction patterns) (auto simp: Let_def split: list.splits)

lemma first_ten_digit_canonical:
  "first_ten_digit phones = Some phone \<Longrightarrow> canonical_phone phone"
proof (induction phones)
  case Nil
  then show ?case by simp
next
  case (Cons a phones)
  then show ?case
    using canonical_shape [OF digits_of_all [of a]]
    by (auto simp: format_phone_ten split: if_splits)
qed

lemma first_enhanced_phone_canonical:
  "first_enhanced_phone s patterns \<noteq> [] \<Longrightarrow> canonical_phone (first_enhanced_phone s patterns)"
  by (induction patterns) (auto split: option.splits dest: first_ten_digit_canonical)

lemma first_tel_canonical:
  "first_tel links = Some phone \<Longrightarrow> canonical_phone phone"
proof (induction links)
  case Nil
  then show ?case by simp
next
  case (Cons a links)
  then show ?case
    using canonical_shape [OF digits_of_all [of "replace ''tel:'' [] a"]]
    by (auto simp: format_phone_ten split: if_splits)
qed

text \<open>
  C5 (as the code has it): for every input text the phone extractor of the
  comprehensive scraper tries its patterns in order, looks at the first match of each, and
  returns the first such match whose digits number exactly ten, stripped but otherwise as
  it stands in the text: a non-empty result has exactly ten digits and is not reformatted.
  \<open>format_phone\<close> turns every string with exactly ten digits into \<open>(XXX) XXX-XXXX\<close>
  over the same digits, and applying it to its own output changes nothing; the extractor
  of the enhanced scraper returns only numbers formatted this way.
\<close>

theorem phone_results:
  "extract_phone_from_text s =
     (case find (\<lambda>pattern. findall pattern False s \<noteq> [] \<and>
                     length (digits_of (strip (hd (findall pattern False s)))) = 10)
             phone_patterns of
        None \<Rightarrow> []
      | Some pattern \<Rightarrow> strip (hd (findall pattern False s))) \<and>
   (extract_phone_from_text s \<noteq> [] \<longrightarrow> length (digits_of (extract_phone_from_text s)) = 10) \<and>
   (length (digits_of phone) = 10 \<longrightarrow>
      canonical_phone (format_phone phone) \<and> digits_of (format_phone phone) = digits_of phone) \<and>
   format_phone (format_phone phone) = format_phone phone \<and>
   (extract_enhanced_phone page_text soup \<noteq> [] \<longrightarrow>
      canonical_phone (extract_enhanced_phone page_text soup))"
proof -
  have 1: "extract_phone_from_text s =
     (case find (\<lambda>pattern. findall pattern False s \<noteq> [] \<and>
                     length (digits_of (strip (hd (findall pattern False s)))) = 10)
             phone_patterns of
        None \<Rightarrow> []
      | Some pattern \<Rightarrow> strip (hd (findall pattern False s)))"
    unfolding extract_phone_from_text_def by (rule first_phone_find)
  have 2: "extract_phone_from_text s \<noteq> [] \<longrightarrow> length (digits_of (extract_phone_from_text s)) = 10"
    unfolding 1 by (auto simp: find_Some_iff split: option.splits)
  have 3: "length (digits_of phone) = 10 \<longrightarrow>
      canonical_phone (format_phone phone) \<and> digits_of (format_phone phone) = digits_of phone"
    using canonical_shape [OF digits_of_all [of phone]] digits_of_canonical [OF digits_of_all [of phone]]
    by (simp add: format_phone_ten)
  have 4: "extract_enhanced_phone page_text soup \<noteq> [] \<longrightarrow>
      canonical_phone (extract_enhanced_phone page_text soup)"
    unfolding extract_enhanced_phone_def
    by (auto split: option.splits dest: first_tel_canonical first_enhanced_phone_canonical)
  show ?thesis using 1 2 3 4 format_phone_idem [of phone] by blast
qed


theorem phone_results_witness:
  "extract_phone_from_text ''Call 555-123-4567'' = ''555-123-4567'' \<and>
   length (digits_of (extract_phone_from_text ''Call 555-123-4567'')) = 10 \<and>
   canonical_phone (format_phone ''555-123-4567'') \<and>
   canonical_phone (extract_enhanced_phone ''Call 555-123-4567''
      \<lparr>get_text = ''Call 555-123-4567'', anchor_hrefs = [''/contact'']\<rparr>)"
proof -
  let ?soup = "\<lparr>get_text = ''Call 555-123-4567'', anchor_hrefs = [''/contact'']\<rparr>"
  have a: "extract_phone_from_text ''Call 555-123-4567'' = ''555-123-4567''"
    by code_simp
  have b: "length (digits_of ''555-123-4567'') = 10"
    by code_simp
  have c: "extract_enhanced_phone ''Call 555-123-4567'' ?soup \<noteq> []"
    by code_simp
  show ?thesis
    using phone_results [of "''Call 555-123-4567''" "''555-123-4567''" "''Call 555-123-4567''" ?soup]
          a b c
    by simp
qed

text \<open>
  The extractor of the comprehensive scraper returns the match as found:
  \<open>555-123-4567\<close> comes back unformatted.
\<close>

theorem phone_raw_counterexample:
  "extract_phone_from_text ''555-123-4567'' = ''555-123-4567'' \<and>
   \<not> canonical_phone (extract_phone_from_text ''555-123-4567'')"
  by code_simp

section \<open>Properties of the email extractors\<close>

lemma prioritize_shape:
  "prioritize acc xs =
     rev (filter org_specific (filter (\<lambda>email. \<not> skipped email) xs)) @ acc @
     filter (\<lambda>email. \<not> org_specific email) (filter (\<lambda>email. \<not> skipped email) xs)"
  by (induction xs arbitrary: acc) simp_all

lemma first_valid_email_find:
  "first_valid_email emails =
     (case find (\<lambda>email. is_valid_email (clean_email email) \<and>
                   \<not> list_ex (\<lambda>generic. sublist generic (lower (clean_email email)))
                        [''noreply'', ''webmaster'', ''admin@university'']) emails of
        None \<Rightarrow> []
      | Some email \<Rightarrow> clean_email email)"
  by (induction emails) (simp_all add: Let_def)

text \<open>
  C7 (as the code has it): the email extractor of the comprehensive scraper drops every
  cleaned match whose lower-cased form contains one of \<open>noreply\<close>, \<open>webmaster\<close>,
  \<open>admin@university\<close>, \<open>support@university\<close>, \<open>info@example\<close>. A survivor is promoted
  when its lower-cased form contains \<open>student\<close>, \<open>club\<close>, \<open>org\<close>, \<open>group\<close> or
  \<open>society\<close> anywhere (domain included); each promoted survivor is put in front of all
  earlier ones. The extractor returns the last promoted survivor if there is one,
  otherwise the first other survivor, otherwise the empty string; a non-empty result is a
  cleaned match that is not dropped. The pattern scan of the enhanced scraper has no
  promotion: it returns the first valid cleaned match free of \<open>noreply\<close>, \<open>webmaster\<close>
  and \<open>admin@university\<close>.
\<close>

theorem email_priority:
  "(let survivors = filter (\<lambda>email. \<not> skipped email) (cleaned_emails s);
        promoted = filter org_specific survivors;
        generic = filter (\<lambda>email. \<not> org_specific email) survivors
    in extract_email_from_text s =
         (if promoted \<noteq> [] then last promoted else if generic \<noteq> [] then hd generic else [])) \<and>
   (extract_email_from_text s \<noteq> [] \<longrightarrow>
      extract_email_from_text s \<in> set (cleaned_emails s) \<and> \<not> skipped (extract_email_from_text s)) \<and>
   (first_mailto (mailto_links soup) = None \<longrightarrow>
      extract_enhanced_email page_text soup =
        (case find (\<lambda>email. is_valid_email (clean_email email) \<and>
                      \<not> list_ex (\<lambda>generic. sublist generic (lower (clean_email email)))
                           [''noreply'', ''webmaster'', ''admin@university''])
                (all_emails page_text) of
           None \<Rightarrow> []
         | Some email \<Rightarrow> clean_email email))"
proof -
  have enhanced: "first_mailto (mailto_links soup) = None \<longrightarrow>
      extract_enhanced_email page_text soup =
        (case find (\<lambda>email. is_valid_email (clean_email email) \<and>
                      \<not> list_ex (\<lambda>generic. sublist generic (lower (clean_email email)))
                           [''noreply'', ''webmaster'', ''admin@university''])
                (all_emails page_text) of
           None \<Rightarrow> []
         | Some email \<Rightarrow> clean_email email)"
    by (simp add: extract_enhanced_email_def first_valid_email_find)
  define survivors where "survivors = filter (\<lambda>email. \<not> skipped email) (cleaned_emails s)"
  define promoted where "promoted = filter org_specific survivors"
  define generic where "generic = filter (\<lambda>email. \<not> org_specific email) survivors"
  have shape: "prioritize [] (cleaned_emails s) = rev promoted @ generic"
    by (simp add: prioritize_shape promoted_def generic_def survivors_def)
  have r: "extract_email_from_text s =
         (if promoted \<noteq> [] then last promoted else if generic \<noteq> [] then hd generic else [])"
  proof (cases "promoted = []")
    case True
    then show ?thesis
      by (cases generic) (simp_all add: extract_email_from_text_def shape)
  next
    case False
    then obtain ys y where p: "promoted = ys @ [y]"
      by (cases promoted rule: rev_cases) auto
    then show ?thesis
      by (simp add: extract_email_from_text_def shape)
  qed
  have m: "extract_email_from_text s \<in> set survivors" if "extract_email_from_text s \<noteq> []"
  proof -
    have "extract_email_from_text s \<in> set (promoted @ generic)"
      using that r by (auto split: if_splits)
    then show ?thesis by (auto simp: promoted_def generic_def)
  qed
  have "extract_email_from_text s \<noteq> [] \<longrightarrow>
      extract_email_from_text s \<in> set (cleaned_emails s) \<and> \<not> skipped (extract_email_from_text s)"
    using m by (auto simp: survivors_def)
  with r enhanced show ?thesis
    unfolding Let_def survivors_def [symmetric] promoted_def [symmetric] generic_def [symmetric]
    by blast
qed

theorem email_priority_witness:
  "extract_email_from_text ''zed@x.edu club1@x.edu club2@x.edu'' = ''club2@x.edu'' \<and>
   \<not> skipped (extract_email_from_text ''zed@x.edu club1@x.edu club2@x.edu'')"
proof -
  let ?s = "''zed@x.edu club1@x.edu club2@x.edu''"
  let ?survivors = "filter (\<lambda>email. \<not> skipped email) (cleaned_emails ?s)"
  let ?promoted = "filter org_specific ?survivors"
  let ?generic = "filter (\<lambda>email. \<not> org_specific email) ?survivors"
  have v: "(if ?promoted \<noteq> [] then last ?promoted
            else if ?generic \<noteq> [] then hd ?generic else []) = ''club2@x.edu''"
    by code_simp
  have 1: "extract_email_from_text ?s =
             (if ?promoted \<noteq> [] then last ?promoted
              else if ?generic \<noteq> [] then hd ?generic else [])"
    using email_priority [of ?s] unfolding Let_def by blast
  have 2: "extract_email_from_text ?s \<noteq> [] \<longrightarrow>
             extract_email_from_text ?s \<in> set (cleaned_emails ?s) \<and>
             \<not> skipped (extract_email_from_text ?s)"
    using email_priority [of ?s] by blast
  have e: "extract_email_from_text ?s = ''club2@x.edu''"
    using 1 v by (rule trans)
  then have "extract_email_from_text ?s \<noteq> []" by simp
  with 2 have "\<not> skipped (extract_email_from_text ?s)" by blast
  with e show ?thesis by blast
qed

text \<open>
  An address that contains \<open>admin@\<close> but not \<open>admin@university\<close> is not dropped.
\<close>

theorem email_admin_counterexample:
  "extract_email_from_text ''admin@bhsu.edu'' = ''admin@bhsu.edu'' \<and>
   sublist ''admin@'' (extract_email_from_text ''admin@bhsu.edu'')"
  by code_simp

lemma first_mailto_find:
  "first_mailto links =
     map_option mailto_address
       (find (\<lambda>href. prefix ''mailto:'' href \<and> is_valid_email (mailto_address href)) links)"
  by (induction links) simp_all

text \<open>
  C6 (as the code has it): in the email extractor of the enhanced scraper the first
  \<open>mailto:\<close> link whose address (the \<open>href\<close> without \<open>mailto:\<close>, cut at \<open>?\<close>) is valid
  decides the result, whatever the page text holds. The record builder of the
  comprehensive scraper extracts the email from the container's text alone: the
  \<open>href\<close> attributes of the container have no influence on it.
\<close>

theorem mailto_precedence:
  "(find (\<lambda>href. prefix ''mailto:'' href \<and> is_valid_email (mailto_address href))
         (mailto_links soup) = Some href
      \<longrightarrow> extract_enhanced_email page_text soup = mailto_address href) \<and>
   extract_email (container\<lparr>anchor_hrefs := hrefs\<rparr>) = extract_email container"
  by (simp add: extract_enhanced_email_def first_mailto_find extract_email_def)

theorem mailto_precedence_witness:
  "extract_enhanced_email ''Biology Club bio2@bhsu.edu''
     \<lparr>get_text = ''Biology Club bio2@bhsu.edu'',
      anchor_hrefs = [''/clubs'', ''mailto:biology@bhsu.edu?subject=Hi'']\<rparr> = ''biology@bhsu.edu''"
proof -
  let ?soup = "\<lparr>get_text = ''Biology Club bio2@bhsu.edu'',
      anchor_hrefs = [''/clubs'', ''mailto:biology@bhsu.edu?subject=Hi'']\<rparr>"
  have f: "find (\<lambda>href. prefix ''mailto:'' href \<and> is_valid_email (mailto_address href))
         (mailto_links ?soup) = Some ''mailto:biology@bhsu.edu?subject=Hi''"
    by code_simp
  have a: "mailto_address ''mailto:biology@bhsu.edu?subject=Hi'' = ''biology@bhsu.edu''"
    by code_simp
  show ?thesis
    using mailto_precedence [of ?soup "''mailto:biology@bhsu.edu?subject=Hi''"
            "''Biology Club bio2@bhsu.edu''"] f a
    by simp
qed

text \<open>
  The record builder of the comprehensive scraper, on a container whose text holds one
  address and whose \<open>mailto:\<close> link holds another, valid one: the address of the text
  is returned.
\<close>

theorem record_builder_mailto_counterexample:
  "is_valid_email (mailto_address ''mailto:biology@bhsu.edu'') \<and>
   mailto_address ''mailto:biology@bhsu.edu'' = ''biology@bhsu.edu'' \<and>
   extract_email \<lparr>get_text = ''Biology Club bio2@bhsu.edu'',
                  anchor_hrefs = [''mailto:biology@bhsu.edu'']\<rparr> = ''bio2@bhsu.edu''"
  by code_simp


end
